theory Spec2Isabelle
  imports Complex_Main
begin

section \<open>The age detector of \<open>age_detector.py\<close>\<close>

text \<open>
  The class \<open>AgeDetector\<close> fits a table of smoothed follow probabilities
  (\<open>fit\<close>, with \<open>_add_prior_knowledge\<close>) and scores sparse rows against it
  (\<open>predict\<close>). NumPy's float64 values are modelled as real numbers: sums, products
  and quotients are exact, \<open>np.log\<close> is \<open>ln\<close> and \<open>np.exp\<close> is \<open>exp\<close>.
  Rounding, overflow and the values \<open>inf\<close> and \<open>nan\<close> that NumPy returns for a
  division by zero are outside the model; the theorems about values are stated for
  inputs on which every divisor is positive.
\<close>

subsection \<open>Data\<close>

text \<open>The exceptions that the modelled statements can raise.\<close>

datatype py_error = ZeroDivisionError | AttributeError | IndexError | ValueError

text \<open>
  A SciPy sparse matrix: its \<open>shape\<close> and its stored entries in coordinate form
  (what \<open>X.tocoo()\<close> exposes as \<open>row\<close>, \<open>col\<close> and \<open>data\<close>).
\<close>

record sparse =
  shape_rows :: nat
  shape_cols :: nat
  coo :: "(nat \<times> nat \<times> real) list"

text \<open>A dense two-dimensional NumPy array: its \<open>shape\<close> and its rows.\<close>

record ndarray =
  dim0 :: nat
  dim1 :: nat
  cells :: "real list list"

text \<open>The attributes that \<open>__init__\<close> sets on the object.\<close>

record AgeDetector =
  n_classes :: int
  PRIOR :: "real list"
  model :: "ndarray option"

subsection \<open>Construction\<close>

text \<open>
  \<open>[1.0 / n] * n\<close>: the division raises for \<open>n = 0\<close>, and a list times a
  negative number is the empty list.
\<close>

definition init :: "int \<Rightarrow> py_error + AgeDetector" where
  "init n =
     (if n = 0 then Inl ZeroDivisionError
      else Inr \<lparr>n_classes = n, PRIOR = replicate (nat n) (1 / real_of_int n), model = None\<rparr>)"

subsection \<open>Fitting\<close>

text \<open>\<open>np.unique(y, return_counts=True)\<close>: the sorted distinct labels and how often each occurs.\<close>

definition np_unique :: "int list \<Rightarrow> int list \<times> nat list" where
  "np_unique y = (let bins = sort (remdups y) in (bins, map (count_list y) bins))"

text \<open>An index into an axis of length \<open>n\<close>: negative indices count from the end.\<close>

definition py_index :: "nat \<Rightarrow> int \<Rightarrow> py_error + nat" where
  "py_index n i =
     (if i < - int n \<or> int n \<le> i then Inl IndexError
      else Inr (nat (if i < 0 then i + int n else i)))"

text \<open>
  \<open>X[mask, :].sum(axis=0)\<close>: for each column, the sum of the stored values in the
  rows that the boolean mask selects.
\<close>

definition masked_col_sums :: "sparse \<Rightarrow> bool list \<Rightarrow> real list" where
  "masked_col_sums X msk =
     map (\<lambda>j. sum_list (map (\<lambda>(r, c, v). v)
                (filter (\<lambda>(r, c, v). c = j \<and> r < length msk \<and> msk ! r) (coo X))))
         [0..<shape_cols X]"

text \<open>
  The loop \<open>for cat in bins\<close> of \<open>fit\<close>. A boolean mask whose length is not the
  row count of \<open>X\<close> is refused by the indexing, and \<open>pos_counts[cat - 1, :]\<close> raises
  when \<open>cat - 1\<close> is not an index of the array.
\<close>

fun fit_loop :: "sparse \<Rightarrow> int list \<Rightarrow> int list \<Rightarrow> real list list \<Rightarrow> py_error + real list list" where
  "fit_loop X y [] pos_counts = Inr pos_counts"
| "fit_loop X y (cat # bins) pos_counts =
     (let msk = map (\<lambda>l. l = cat) y in
      if length msk \<noteq> shape_rows X then Inl IndexError
      else (case py_index (length pos_counts) (cat - 1) of
              Inl e \<Rightarrow> Inl e
            | Inr i \<Rightarrow> fit_loop X y bins (pos_counts[i := masked_col_sums X msk])))"

text \<open>\<open>a.sum(axis=0)\<close> of a dense array.\<close>

definition column :: "ndarray \<Rightarrow> nat \<Rightarrow> real list" where
  "column A j = map (\<lambda>row. row ! j) (cells A)"

definition sum_axis0 :: "ndarray \<Rightarrow> real list" where
  "sum_axis0 A = map (\<lambda>j. sum_list (column A j)) [0..<dim1 A]"

text \<open>
  NumPy broadcasting along the first axis: an operand with one row is repeated,
  operands with the same number of rows are combined row by row, anything else raises.
\<close>

definition broadcast_dim0 :: "nat \<Rightarrow> nat \<Rightarrow> py_error + nat" where
  "broadcast_dim0 k l =
     (if k = l then Inr k else if k = 1 then Inr l else if l = 1 then Inr k
      else Inl ValueError)"

definition stretch :: "nat \<Rightarrow> real list list \<Rightarrow> real list list" where
  "stretch n rows = (if length rows = 1 then replicate n (hd rows) else rows)"

text \<open>
  \<open>_add_prior_knowledge(pos_counts, bucket_counts, n_data)\<close>, statement by statement.
  \<open>bucket_counts\<close> is the column of counts of the data frame.
\<close>

definition add_prior_knowledge ::
    "ndarray \<Rightarrow> nat list \<Rightarrow> nat \<Rightarrow> py_error + ndarray \<times> ndarray" where
  "add_prior_knowledge pos_counts bucket_counts n_data =
     (let total_counts = map (\<lambda>n. replicate (dim1 pos_counts) (real n)) bucket_counts;
          b = map (map (\<lambda>t. t / 10)) total_counts;
          n_followers = sum_axis0 pos_counts;
          a = map (\<lambda>row. map2 (\<lambda>bv f. bv * f / real n_data) row n_followers) b
      in case broadcast_dim0 (dim0 pos_counts) (length bucket_counts) of
           Inl e \<Rightarrow> Inl e
         | Inr k \<Rightarrow>
             Inr (\<lparr>dim0 = k, dim1 = dim1 pos_counts,
                   cells = map2 (map2 (+)) (stretch k (cells pos_counts)) (stretch k a)\<rparr>,
                  \<lparr>dim0 = length bucket_counts, dim1 = dim1 pos_counts,
                   cells = map2 (map2 (\<lambda>t av. t + av + 1)) total_counts a\<rparr>))"

text \<open>\<open>np.divide\<close> of two arrays, with the same broadcasting.\<close>

definition np_divide :: "ndarray \<Rightarrow> ndarray \<Rightarrow> py_error + ndarray" where
  "np_divide A B =
     (case broadcast_dim0 (dim0 A) (dim0 B) of
        Inl e \<Rightarrow> Inl e
      | Inr k \<Rightarrow>
          Inr \<lparr>dim0 = k, dim1 = dim1 A,
               cells = map2 (map2 (/)) (stretch k (cells A)) (stretch k (cells B))\<rparr>)"

definition fit :: "AgeDetector \<Rightarrow> sparse \<Rightarrow> int list \<Rightarrow> py_error + AgeDetector" where
  "fit self X y =
     (let (bins, counts) = np_unique y;
          n_cats = length bins;
          n_data = shape_rows X;
          n_features = shape_cols X;
          pos_counts = replicate n_cats (replicate n_features 0)
      in case fit_loop X y bins pos_counts of
           Inl e \<Rightarrow> Inl e
         | Inr filled \<Rightarrow>
             (case add_prior_knowledge
                     \<lparr>dim0 = n_cats, dim1 = n_features, cells = filled\<rparr> counts n_data of
                Inl e \<Rightarrow> Inl e
              | Inr (pos_counts', total_counts) \<Rightarrow>
                  (case np_divide pos_counts' total_counts of
                     Inl e \<Rightarrow> Inl e
                   | Inr m \<Rightarrow> Inr (self\<lparr>model := Some m\<rparr>))))"

subsection \<open>Prediction\<close>

text \<open>
  The loop over the stored entries of \<open>X\<close>: \<open>joint[row, :] += self.model[:, col]\<close>.
  The stored value itself is not read. A column index beyond the model's columns raises.
\<close>

fun accumulate :: "ndarray \<Rightarrow> (nat \<times> nat \<times> real) list \<Rightarrow> real list list \<Rightarrow> py_error + real list list" where
  "accumulate M [] joint = Inr joint"
| "accumulate M ((row, col, v) # rest) joint =
     (if dim1 M \<le> col \<or> length joint \<le> row then Inl IndexError
      else accumulate M rest (joint[row := map2 (+) (joint ! row) (column M col)]))"

text \<open>
  \<open>joint += np.log(self.PRIOR)\<close>: the vector of logarithms is added to every row; it
  must have the length of a row, or length one.
\<close>

definition add_log_prior :: "real list \<Rightarrow> nat \<Rightarrow> real list list \<Rightarrow> py_error + real list list" where
  "add_log_prior prior n_cats joint =
     (let lp = map ln prior in
      if length lp = n_cats then Inr (map (\<lambda>r. map2 (+) r lp) joint)
      else if length lp = 1 then Inr (map (map (\<lambda>x. x + hd lp)) joint)
      else Inl ValueError)"

text \<open>\<open>np.max\<close> of a row; the caller has excluded the empty row, for which NumPy raises.\<close>

definition row_max :: "real list \<Rightarrow> real" where
  "row_max r = fold max (tl r) (hd r)"

text \<open>\<open>argmax\<close> of a row: the index of the first occurrence of its maximum.\<close>

fun argmax_from :: "real list \<Rightarrow> nat \<Rightarrow> nat \<Rightarrow> real \<Rightarrow> nat" where
  "argmax_from [] i best bv = best"
| "argmax_from (x # xs) i best bv =
     (if bv < x then argmax_from xs (Suc i) i x else argmax_from xs (Suc i) best bv)"

definition argmax :: "real list \<Rightarrow> nat" where
  "argmax r = argmax_from (tl r) 1 0 (hd r)"

text \<open>
  \<open>predict\<close>. Reading \<open>self.model.shape\<close> of an unset model raises
  \<open>AttributeError\<close>; \<open>np.max(joint, axis=1)\<close> raises for rows of length zero. The
  file that \<open>np.savetxt\<close> writes is not part of the model.
\<close>

definition predict :: "AgeDetector \<Rightarrow> sparse \<Rightarrow> py_error + int list" where
  "predict self X =
     (case model self of
        None \<Rightarrow> Inl AttributeError
      | Some M \<Rightarrow>
          (let n_cats = dim0 M;
               joint = replicate (shape_rows X) (replicate n_cats 0)
           in case accumulate M (coo X) joint of
                Inl e \<Rightarrow> Inl e
              | Inr joint1 \<Rightarrow>
                  (case add_log_prior (PRIOR self) n_cats joint1 of
                     Inl e \<Rightarrow> Inl e
                   | Inr joint2 \<Rightarrow>
                       if n_cats = 0 then Inl ValueError
                       else
                         (let joint3 = map (\<lambda>r. map (\<lambda>x. x - row_max r) r) joint2;
                              probs = map (map exp) joint3;
                              normaliser = map sum_list probs;
                              probs' = map2 (\<lambda>r s. map (\<lambda>p. p / s) r) probs normaliser;
                              predicted_cat = map (\<lambda>r. int (argmax r) + 1) probs'
                          in Inr predicted_cat))))"

subsection \<open>Well-formed inputs\<close>

text \<open>A dense array whose rows agree with its shape.\<close>

definition wf_ndarray :: "ndarray \<Rightarrow> bool" where
  "wf_ndarray A = (length (cells A) = dim0 A \<and> (\<forall>r\<in>set (cells A). length r = dim1 A))"

text \<open>A sparse matrix whose stored entries lie inside its shape, as SciPy maintains.\<close>

definition sparse_ok :: "sparse \<Rightarrow> bool" where
  "sparse_ok X = (\<forall>(r, c, v)\<in>set (coo X). r < shape_rows X \<and> c < shape_cols X)"

text \<open>A sparse binary matrix: each position is stored at most once, with value one.\<close>

definition binary_sparse :: "sparse \<Rightarrow> bool" where
  "binary_sparse X =
     (sparse_ok X \<and> distinct (map (\<lambda>(r, c, v). (r, c)) (coo X)) \<and>
      (\<forall>(r, c, v)\<in>set (coo X). v = 1))"

text \<open>
  A valid input of \<open>fit\<close>: a binary matrix, one label per row, labels counted from one.
  The upper bound \<open>n_classes\<close> on the labels is not needed by any theorem below.
\<close>

definition valid_fit_input :: "sparse \<Rightarrow> int list \<Rightarrow> bool" where
  "valid_fit_input X y = (binary_sparse X \<and> length y = shape_rows X \<and> (\<forall>c\<in>set y. 1 \<le> c))"

text \<open>What \<open>__init__\<close> leaves in the attributes \<open>n_classes\<close> and \<open>PRIOR\<close>, for a positive count.\<close>

definition constructed :: "AgeDetector \<Rightarrow> bool" where
  "constructed self =
     (0 < n_classes self \<and>
      PRIOR self = replicate (nat (n_classes self)) (1 / real_of_int (n_classes self)))"

text \<open>A label whose row index \<open>c - 1\<close> is outside an axis of length \<open>k\<close>, wrap-around included.\<close>

definition out_of_range :: "nat \<Rightarrow> int \<Rightarrow> bool" where
  "out_of_range k c = (c < 1 - int k \<or> int k < c)"

subsection \<open>The smoothing step on its own\<close>

text \<open>The last two statements of \<open>fit\<close>: the prior is added and the quotient is taken.\<close>

definition smoothed :: "ndarray \<Rightarrow> nat list \<Rightarrow> nat \<Rightarrow> py_error + ndarray" where
  "smoothed P bc n =
     (case add_prior_knowledge P bc n of Inl e \<Rightarrow> Inl e | Inr (p, t) \<Rightarrow> np_divide p t)"

definition prior_a :: "ndarray \<Rightarrow> nat list \<Rightarrow> nat \<Rightarrow> nat \<Rightarrow> nat \<Rightarrow> real" where
  "prior_a P bc n i j = real (bc ! i) / 10 * sum_list (column P j) / real n"

definition smoothed_entry :: "ndarray \<Rightarrow> nat list \<Rightarrow> nat \<Rightarrow> nat \<Rightarrow> nat \<Rightarrow> real" where
  "smoothed_entry P bc n i j =
     (cells P ! i ! j + prior_a P bc n i j) / (real (bc ! i) + prior_a P bc n i j + 1)"

text \<open>The array of positive counts with the count of class row \<open>c\<close> and feature \<open>j\<close> raised by one.\<close>

definition increment :: "ndarray \<Rightarrow> nat \<Rightarrow> nat \<Rightarrow> ndarray" where
  "increment P c j = P\<lparr>cells := (cells P)[c := (cells P ! c)[j := cells P ! c ! j + 1]]\<rparr>"

subsection \<open>The quantities of the specification\<close>

text \<open>
  The specification describes a fitted entry through these quantities, written here
  from its words and compared with the code below: \<open>m\<close> is the sum of feature \<open>j\<close>
  over the rows labelled \<open>c\<close>, \<open>n\<close> the number of rows labelled \<open>c\<close>, \<open>b = n / 10\<close>,
  \<open>F\<close> the sum of \<open>m\<close> over all classes, and \<open>a = b * F / n_samples\<close>.
\<close>

definition spec_m :: "sparse \<Rightarrow> int list \<Rightarrow> int \<Rightarrow> nat \<Rightarrow> real" where
  "spec_m X y c j =
     sum_list (map (\<lambda>(r, k, v). v)
       (filter (\<lambda>(r, k, v). k = j \<and> r < length y \<and> y ! r = c) (coo X)))"

definition spec_n :: "int list \<Rightarrow> int \<Rightarrow> real" where
  "spec_n y c = real (count_list y c)"

definition spec_b :: "int list \<Rightarrow> int \<Rightarrow> real" where
  "spec_b y c = spec_n y c / 10"

definition spec_F :: "sparse \<Rightarrow> int list \<Rightarrow> nat \<Rightarrow> real" where
  "spec_F X y j = sum_list (map (\<lambda>c. spec_m X y c j) (sort (remdups y)))"

definition spec_a :: "sparse \<Rightarrow> int list \<Rightarrow> int \<Rightarrow> nat \<Rightarrow> real" where
  "spec_a X y c j = spec_b y c * spec_F X y j / real (shape_rows X)"

subsection \<open>Concrete inputs\<close>

text \<open>
  The sparse matrix that SciPy builds from a dense array: its non-zero cells, row by row.
\<close>

definition csr_matrix :: "real list list \<Rightarrow> sparse" where
  "csr_matrix rows =
     \<lparr>shape_rows = length rows,
      shape_cols = (case rows of [] \<Rightarrow> 0 | r # _ \<Rightarrow> length r),
      coo = concat (map (\<lambda>(i, row). map (\<lambda>(j, v). (i, j, v))
                           (filter (\<lambda>(j, v). v \<noteq> 0) (enumerate 0 row)))
                     (enumerate 0 rows))\<rparr>"

text \<open>A freshly constructed detector for \<open>k\<close> classes.\<close>

definition fresh :: "nat \<Rightarrow> AgeDetector" where
  "fresh k = \<lparr>n_classes = int k, PRIOR = replicate k (1 / real k), model = None\<rparr>"

text \<open>The training set \<open>[[1,0],[1,0],[0,1],[0,1]]\<close> with labels \<open>[1,1,2,2]\<close>, and its fitted table.\<close>

definition X_train :: sparse where
  "X_train = \<lparr>shape_rows = 4, shape_cols = 2, coo = [(0, 0, 1), (1, 0, 1), (2, 1, 1), (3, 1, 1)]\<rparr>"

definition y_train :: "int list" where
  "y_train = [1, 1, 2, 2]"

definition table_train :: ndarray where
  "table_train = \<lparr>dim0 = 2, dim1 = 2, cells = [[21 / 31, 1 / 31], [1 / 31, 21 / 31]]\<rparr>"

definition fitted_train :: AgeDetector where
  "fitted_train = (fresh 2)\<lparr>model := Some table_train\<rparr>"

text \<open>The rows \<open>[[1,0]]\<close> and \<open>[[0,1]]\<close>, and the two-row input \<open>[[0,0],[0,1]]\<close>.\<close>

definition X_10 :: sparse where
  "X_10 = \<lparr>shape_rows = 1, shape_cols = 2, coo = [(0, 0, 1)]\<rparr>"

definition X_01 :: sparse where
  "X_01 = \<lparr>shape_rows = 1, shape_cols = 2, coo = [(0, 1, 1)]\<rparr>"

definition X_zero_row :: sparse where
  "X_zero_row = \<lparr>shape_rows = 2, shape_cols = 2, coo = [(1, 1, 1)]\<rparr>"

text \<open>The training set \<open>[[1,0],[1,0]]\<close>: nobody follows the second account.\<close>

definition X_unfollowed :: sparse where
  "X_unfollowed = \<lparr>shape_rows = 2, shape_cols = 2, coo = [(0, 0, 1), (1, 0, 1)]\<rparr>"

text \<open>A two-by-two array of positive counts with bucket counts \<open>[2, 2]\<close>.\<close>

definition P_counts :: ndarray where
  "P_counts = \<lparr>dim0 = 2, dim1 = 2, cells = [[1, 0], [0, 2]]\<rparr>"

section \<open>Properties of fitting\<close>

subsection \<open>The bucketing loop\<close>


lemma py_index_Inr: "py_index n i = Inr k \<Longrightarrow> k < n"
  by (auto simp: py_index_def split: if_splits)

lemma py_index_pos: "1 \<le> c \<Longrightarrow> c \<le> int n \<Longrightarrow> py_index n (c - 1) = Inr (nat (c - 1))"
  by (auto simp: py_index_def)

lemma fit_loop_length: "fit_loop X y bins pos = Inr pos' \<Longrightarrow> length pos' = length pos"
  by (induction bins arbitrary: pos) (auto simp: Let_def split: if_splits sum.splits)

lemma length_masked_col_sums [simp]: "length (masked_col_sums X msk) = shape_cols X"
  by (simp add: masked_col_sums_def)

lemma fit_loop_row_length:
  "fit_loop X y bins pos = Inr pos' \<Longrightarrow> \<forall>r\<in>set pos. length r = shape_cols X \<Longrightarrow>
   \<forall>r\<in>set pos'. length r = shape_cols X"
proof (induction bins arbitrary: pos)
  case Nil
  then show ?case by simp
next
  case (Cons cat bins)
  from Cons.prems(1) obtain i where
    i: "py_index (length pos) (cat - 1) = Inr i"
    and rest: "fit_loop X y bins (pos[i := masked_col_sums X (map (\<lambda>l. l = cat) y)]) = Inr pos'"
    by (auto simp: Let_def split: if_splits sum.splits)
  have "\<forall>r\<in>set (pos[i := masked_col_sums X (map (\<lambda>l. l = cat) y)]). length r = shape_cols X"
    using Cons.prems(2) by (auto dest!: subsetD [OF set_update_subset_insert])
  from Cons.IH [OF rest this] show ?case .
qed

lemma py_index_error_iff: "(py_index n (c - 1) = Inl IndexError) = out_of_range n c"
  by (auto simp: py_index_def out_of_range_def)

lemma py_index_cases: "py_index n i = Inl IndexError \<or> (\<exists>k. py_index n i = Inr k)"
  by (auto simp: py_index_def)

lemma fit_loop_raises:
  "length y = shape_rows X \<Longrightarrow> \<exists>c\<in>set bins. out_of_range (length pos) c \<Longrightarrow>
   fit_loop X y bins pos = Inl IndexError"
proof (induction bins arbitrary: pos)
  case Nil
  then show ?case by simp
next
  case (Cons cat bins)
  show ?case
  proof (cases "out_of_range (length pos) cat")
    case True
    then show ?thesis using Cons.prems(1) py_index_error_iff [of "length pos" cat] by simp
  next
    case False
    then obtain i where i: "py_index (length pos) (cat - 1) = Inr i"
      using py_index_cases [of "length pos" "cat - 1"] by (auto simp: py_index_error_iff)
    from False Cons.prems(2) have "\<exists>c\<in>set bins. out_of_range (length (pos[i := masked_col_sums X (map (\<lambda>l. l = cat) y)])) c"
      by auto
    from Cons.IH [OF Cons.prems(1) this] show ?thesis
      using Cons.prems(1) i by simp
  qed
qed

lemma fit_loop_returns:
  "length y = shape_rows X \<Longrightarrow> \<forall>c\<in>set bins. \<not> out_of_range (length pos) c \<Longrightarrow>
   \<exists>pos'. fit_loop X y bins pos = Inr pos'"
proof (induction bins arbitrary: pos)
  case Nil
  then show ?case by simp
next
  case (Cons cat bins)
  from Cons.prems(2) obtain i where i: "py_index (length pos) (cat - 1) = Inr i"
    using py_index_cases [of "length pos" "cat - 1"] by (auto simp: py_index_error_iff)
  have "\<forall>c\<in>set bins. \<not> out_of_range (length (pos[i := masked_col_sums X (map (\<lambda>l. l = cat) y)])) c"
    using Cons.prems(2) by simp
  from Cons.IH [OF Cons.prems(1) this] show ?case
    using Cons.prems(1) i by simp
qed

lemma fit_loop_rows:
  "fit_loop X y bins pos = Inr pos' \<Longrightarrow> distinct bins \<Longrightarrow> \<forall>c\<in>set bins. 1 \<le> c \<Longrightarrow> i < length pos \<Longrightarrow>
   pos' ! i = (if int i + 1 \<in> set bins then masked_col_sums X (map (\<lambda>l. l = int i + 1) y) else pos ! i)"
proof (induction bins arbitrary: pos)
  case Nil
  then show ?case by simp
next
  case (Cons cat bins)
  let ?s = "masked_col_sums X (map (\<lambda>l. l = cat) y)"
  from Cons.prems(1) obtain k where
    k: "py_index (length pos) (cat - 1) = Inr k"
    and rest: "fit_loop X y bins (pos[k := ?s]) = Inr pos'"
    by (auto simp: Let_def split: if_splits sum.splits)
  have cat: "1 \<le> cat" using Cons.prems(3) by simp
  have kk: "k = nat (cat - 1)" "k < length pos"
    using k cat by (auto simp: py_index_def split: if_splits)
  have "pos' ! i = (if int i + 1 \<in> set bins then masked_col_sums X (map (\<lambda>l. l = int i + 1) y) else (pos[k := ?s]) ! i)"
    using Cons.IH [OF rest] Cons.prems by simp
  moreover have "int i + 1 = cat \<longleftrightarrow> i = k" using kk cat by auto
  ultimately show ?case using Cons.prems(2,4) kk by (auto simp: nth_list_update)
qed

lemma np_unique_bins:
  "np_unique y = (bins, counts) \<Longrightarrow>
   set bins = set y \<and> distinct bins \<and> sorted bins \<and> length bins = card (set y) \<and> counts = map (count_list y) bins"
  by (auto simp: np_unique_def Let_def length_remdups_card_conv)

lemma contiguous_labels:
  assumes "\<forall>c\<in>set y. 1 \<le> c \<and> c \<le> int (card (set y))"
  shows "set y = {1..int (card (set y))}"
proof (rule card_subset_eq)
  show "finite {1..int (card (set y))}" by simp
  show "set y \<subseteq> {1..int (card (set y))}" using assms by auto
  show "card (set y) = card {1..int (card (set y))}" by simp
qed

subsection \<open>The smoothing step\<close>


lemma length_column [simp]: "length (column M c) = length (cells M)"
  by (simp add: column_def)

lemma stretch_same: "length rows = n \<Longrightarrow> stretch n rows = rows"
  by (cases rows) (auto simp: stretch_def)

lemma broadcast_same [simp]: "broadcast_dim0 k k = Inr k"
  by (simp add: broadcast_dim0_def)

lemma smoothed_value:
  assumes wf: "wf_ndarray P" and len: "length bc = dim0 P"
  shows "smoothed P bc n =
           Inr \<lparr>dim0 = dim0 P, dim1 = dim1 P,
                cells = map (\<lambda>i. map (\<lambda>j. smoothed_entry P bc n i j) [0..<dim1 P]) [0..<dim0 P]\<rparr>"
proof -
  let ?T = "map (\<lambda>n. replicate (dim1 P) (real n)) bc"
  let ?a = "map (\<lambda>row. map2 (\<lambda>bv f. bv * f / real n) row (sum_axis0 P)) (map (map (\<lambda>t. t / 10)) ?T)"
  let ?p = "map2 (map2 (+)) (cells P) ?a"
  let ?t = "map2 (map2 (\<lambda>t av. t + av + 1)) ?T ?a"
  have lc: "length (cells P) = dim0 P" and rl: "\<And>i. i < dim0 P \<Longrightarrow> length (cells P ! i) = dim1 P"
    using wf by (auto simp: wf_ndarray_def)
  have apk: "add_prior_knowledge P bc n =
      Inr (\<lparr>dim0 = dim0 P, dim1 = dim1 P, cells = ?p\<rparr>, \<lparr>dim0 = dim0 P, dim1 = dim1 P, cells = ?t\<rparr>)"
    using len lc by (simp add: add_prior_knowledge_def Let_def stretch_same del: map_map)
  have lp: "length ?p = dim0 P" and lt: "length ?t = dim0 P"
    using len lc by simp_all
  have cellsq: "map2 (map2 (/)) ?p ?t = map (\<lambda>i. map (\<lambda>j. smoothed_entry P bc n i j) [0..<dim1 P]) [0..<dim0 P]"
  proof (rule nth_equalityI)
    show "length (map2 (map2 (/)) ?p ?t) = length (map (\<lambda>i. map (\<lambda>j. smoothed_entry P bc n i j) [0..<dim1 P]) [0..<dim0 P])"
      using len lc by simp
  next
    fix i assume "i < length (map2 (map2 (/)) ?p ?t)"
    then have i: "i < dim0 P" using len lc by simp
    have ai: "?a ! i = map (\<lambda>j. prior_a P bc n i j) [0..<dim1 P]"
      using i len by (auto intro!: nth_equalityI simp: prior_a_def sum_axis0_def)
    have pi: "?p ! i = map (\<lambda>j. cells P ! i ! j + prior_a P bc n i j) [0..<dim1 P]"
      using i len lc rl [OF i] ai by (auto intro!: nth_equalityI)
    have ti: "?t ! i = map (\<lambda>j. real (bc ! i) + prior_a P bc n i j + 1) [0..<dim1 P]"
      using i len lc ai by (auto intro!: nth_equalityI)
    have "map2 (map2 (/)) ?p ?t ! i = map2 (/) (?p ! i) (?t ! i)"
      using i lp lt by simp
    also have "\<dots> = map (\<lambda>j. smoothed_entry P bc n i j) [0..<dim1 P]"
      unfolding pi ti by (auto intro!: nth_equalityI simp: smoothed_entry_def)
    finally show "map2 (map2 (/)) ?p ?t ! i = map (\<lambda>i. map (\<lambda>j. smoothed_entry P bc n i j) [0..<dim1 P]) [0..<dim0 P] ! i"
      using i by simp
  qed
  show ?thesis
    unfolding smoothed_def apk using lp lt cellsq
    by (simp add: np_divide_def stretch_same)
qed

lemma fit_unfold:
  "fit self X y =
     (case fit_loop X y (sort (remdups y)) (replicate (card (set y)) (replicate (shape_cols X) 0)) of
        Inl e \<Rightarrow> Inl e
      | Inr filled \<Rightarrow>
          (case smoothed \<lparr>dim0 = card (set y), dim1 = shape_cols X, cells = filled\<rparr>
                  (map (count_list y) (sort (remdups y))) (shape_rows X) of
             Inl e \<Rightarrow> Inl e
           | Inr m \<Rightarrow> Inr (self\<lparr>model := Some m\<rparr>)))"
  by (simp add: fit_def np_unique_def Let_def smoothed_def length_remdups_card_conv split: sum.splits prod.splits)

subsection \<open>The fitted model\<close>

lemma wf_zeros: "wf_ndarray \<lparr>dim0 = k, dim1 = n, cells = replicate k (replicate n 0)\<rparr>"
  by (simp add: wf_ndarray_def)

lemma fit_loop_wf:
  assumes "fit_loop X y bins (replicate k (replicate (shape_cols X) 0)) = Inr filled"
  shows "wf_ndarray \<lparr>dim0 = k, dim1 = shape_cols X, cells = filled\<rparr>"
  using fit_loop_length [OF assms] fit_loop_row_length [OF assms]
  by (simp add: wf_ndarray_def)

lemma fit_value:
  "fit self X y =
     (case fit_loop X y (sort (remdups y)) (replicate (card (set y)) (replicate (shape_cols X) 0)) of
        Inl e \<Rightarrow> Inl e
      | Inr filled \<Rightarrow>
          Inr (self\<lparr>model := Some \<lparr>dim0 = card (set y), dim1 = shape_cols X,
                 cells = map (\<lambda>i. map (\<lambda>j. smoothed_entry
                            \<lparr>dim0 = card (set y), dim1 = shape_cols X, cells = filled\<rparr>
                            (map (count_list y) (sort (remdups y))) (shape_rows X) i j)
                          [0..<shape_cols X]) [0..<card (set y)]\<rparr>\<rparr>))"
proof (cases "fit_loop X y (sort (remdups y)) (replicate (card (set y)) (replicate (shape_cols X) 0))")
  case (Inl e)
  then show ?thesis by (simp add: fit_unfold)
next
  case (Inr filled)
  have "smoothed \<lparr>dim0 = card (set y), dim1 = shape_cols X, cells = filled\<rparr>
          (map (count_list y) (sort (remdups y))) (shape_rows X) =
        Inr \<lparr>dim0 = card (set y), dim1 = shape_cols X,
                 cells = map (\<lambda>i. map (\<lambda>j. smoothed_entry
                            \<lparr>dim0 = card (set y), dim1 = shape_cols X, cells = filled\<rparr>
                            (map (count_list y) (sort (remdups y))) (shape_rows X) i j)
                          [0..<shape_cols X]) [0..<card (set y)]\<rparr>"
    using smoothed_value [OF fit_loop_wf [OF Inr], of "map (count_list y) (sort (remdups y))" "shape_rows X"]
    by (simp add: length_remdups_card_conv)
  then show ?thesis using Inr by (simp add: fit_unfold)
qed

lemma fit_errors: "fit self X y = Inl e \<Longrightarrow> e = IndexError"
proof -
  have "fit_loop X y bins pos = Inl e \<Longrightarrow> e = IndexError" for bins pos
    by (induction bins arbitrary: pos) (auto simp: Let_def py_index_def split: if_splits sum.splits)
  then show "fit self X y = Inl e \<Longrightarrow> e = IndexError"
    by (auto simp: fit_value split: sum.splits)
qed

lemma fit_train: "fit (fresh 2) X_train y_train = Inr ((fresh 2)\<lparr>model := Some table_train\<rparr>)"
  by code_simp

subsection \<open>The fitted entries and the quantities of the specification\<close>

lemma bins_upto:
  assumes "\<forall>c\<in>set y. 1 \<le> c \<and> c \<le> int (card (set y))"
  shows "sort (remdups y) = [1..int (card (set y))]"
proof (rule sorted_distinct_set_unique)
  show "set (sort (remdups y)) = set [1..int (card (set y))]"
    using contiguous_labels [OF assms] by simp
qed simp_all

lemma upto_as_map: "[1..int k] = map (\<lambda>i. int i + 1) [0..<k]"
  by (rule nth_equalityI) simp_all

lemma masked_nth:
  assumes "j < shape_cols X"
  shows "masked_col_sums X (map (\<lambda>l. l = c) y) ! j = spec_m X y c j"
proof -
  have "filter (\<lambda>(r, k, v). k = j \<and> r < length (map (\<lambda>l. l = c) y) \<and> map (\<lambda>l. l = c) y ! r) (coo X) =
        filter (\<lambda>(r, k, v). k = j \<and> r < length y \<and> y ! r = c) (coo X)"
    by (rule filter_cong) auto
  then show ?thesis using assms by (simp add: masked_col_sums_def spec_m_def)
qed

lemma fit_entries:
  assumes pos: "\<forall>c\<in>set y. 1 \<le> c" and len: "length y = shape_rows X"
    and fit: "fit self X y = Inr self'"
  obtains M where "model self' = Some M" "dim0 M = card (set y)" "dim1 M = shape_cols X"
    "set y = {1..int (card (set y))}"
    "\<forall>i<card (set y). \<forall>j<shape_cols X.
        cells M ! i ! j =
          (spec_m X y (int i + 1) j + spec_a X y (int i + 1) j) /
          (spec_n y (int i + 1) + spec_a X y (int i + 1) j + 1)"
proof -
  let ?k = "card (set y)"
  let ?nf = "shape_cols X"
  let ?bins = "sort (remdups y)"
  let ?zeros = "replicate ?k (replicate ?nf (0::real))"
  let ?counts = "map (count_list y) ?bins"
  from fit obtain filled where fl: "fit_loop X y ?bins ?zeros = Inr filled"
    by (auto simp: fit_value split: sum.splits)
  let ?P = "\<lparr>dim0 = ?k, dim1 = ?nf, cells = filled\<rparr>"
  let ?M = "\<lparr>dim0 = ?k, dim1 = ?nf,
             cells = map (\<lambda>i. map (\<lambda>j. smoothed_entry ?P ?counts (shape_rows X) i j) [0..<?nf]) [0..<?k]\<rparr>"
  have m: "model self' = Some ?M" using fit fl by (auto simp: fit_value)
  have "\<not> (\<exists>c\<in>set ?bins. out_of_range (length ?zeros) c)"
    using fit_loop_raises [OF len, of ?bins ?zeros] fl by auto
  then have range: "\<forall>c\<in>set y. 1 \<le> c \<and> c \<le> int ?k"
    using pos by (auto simp: out_of_range_def)
  have sety: "set y = {1..int ?k}" by (rule contiguous_labels [OF range])
  have bins: "?bins = map (\<lambda>i. int i + 1) [0..<?k]"
    using bins_upto [OF range] by (simp only: upto_as_map)
  have lf: "length filled = ?k" using fit_loop_length [OF fl] by simp
  have row: "filled ! i = masked_col_sums X (map (\<lambda>l. l = int i + 1) y)" if "i < ?k" for i
  proof -
    have "int i + 1 \<in> {1..int ?k}" using that by simp
    with sety have "int i + 1 \<in> set y" by blast
    then have "int i + 1 \<in> set ?bins" by simp
    moreover have "distinct ?bins" "\<forall>c\<in>set ?bins. 1 \<le> c" "i < length ?zeros"
      using pos that by simp_all
    ultimately show ?thesis using fit_loop_rows [OF fl, of i] by simp
  qed
  have cell: "filled ! i ! j = spec_m X y (int i + 1) j" if "i < ?k" "j < ?nf" for i j
    using row [OF that(1)] masked_nth [OF that(2)] by simp
  have colsum: "sum_list (column ?P j) = spec_F X y j" if "j < ?nf" for j
  proof -
    have "column ?P j = map (\<lambda>i. spec_m X y (int i + 1) j) [0..<?k]"
      using lf cell that by (auto intro!: nth_equalityI simp: column_def)
    then show ?thesis by (simp add: spec_F_def bins comp_def)
  qed
  have count: "?counts ! i = count_list y (int i + 1)" if "i < ?k" for i
    using that by (simp add: bins)
  have "cells ?M ! i ! j =
          (spec_m X y (int i + 1) j + spec_a X y (int i + 1) j) /
          (spec_n y (int i + 1) + spec_a X y (int i + 1) j + 1)" if "i < ?k" "j < ?nf" for i j
    using that cell [OF that] colsum [OF that(2)] count [OF that(1)]
    by (simp add: smoothed_entry_def prior_a_def spec_a_def spec_b_def spec_n_def)
  then have "\<forall>i<?k. \<forall>j<?nf.
        cells ?M ! i ! j =
          (spec_m X y (int i + 1) j + spec_a X y (int i + 1) j) /
          (spec_n y (int i + 1) + spec_a X y (int i + 1) j + 1)" by blast
  with m sety show thesis by (intro that [of ?M]) simp_all
qed

lemma valid_train: "valid_fit_input X_train y_train"
  by code_simp

subsection \<open>Bounds on the fitted entries\<close>

lemma sum_ones:
  "\<forall>(r, k, v)\<in>set es. v = 1 \<Longrightarrow> sum_list (map (\<lambda>(r, k, v). v) es) = real (length es)"
  for es :: "(nat \<times> nat \<times> real) list"
  by (induction es) auto

lemma spec_m_length:
  assumes "binary_sparse X"
  shows "spec_m X y c j =
           real (length (filter (\<lambda>(r, k, v). k = j \<and> r < length y \<and> y ! r = c) (coo X)))"
proof -
  have "\<forall>(r, k, v)\<in>set (filter (\<lambda>(r, k, v). k = j \<and> r < length y \<and> y ! r = c) (coo X)). v = 1"
    using assms by (auto simp: binary_sparse_def)
  from sum_ones [OF this] show ?thesis by (simp add: spec_m_def)
qed

lemma spec_m_nonneg: "binary_sparse X \<Longrightarrow> 0 \<le> spec_m X y c j"
  by (simp add: spec_m_length)

lemma spec_m_le_n:
  assumes "binary_sparse X"
  shows "spec_m X y c j \<le> spec_n y c"
proof -
  let ?es = "filter (\<lambda>(r, k, v). k = j \<and> r < length y \<and> y ! r = c) (coo X)"
  have "distinct (map (\<lambda>(r, k, v). (r, k)) ?es)"
    using assms by (simp add: binary_sparse_def distinct_map_filter)
  moreover have "map (\<lambda>(r, k, v). (r, k)) ?es = map (\<lambda>r. (r, j)) (map fst ?es)"
    by (induction "coo X") auto
  ultimately have "distinct (map (\<lambda>r. (r, j)) (map fst ?es))" by (simp only:)
  then have "distinct (map fst ?es)"
    using distinct_map [of "\<lambda>r. (r, j)" "map fst ?es"] by blast
  then have "length ?es = card (set (map fst ?es))"
    using distinct_card [of "map fst ?es"] by simp
  also have "\<dots> \<le> card {i. i < length y \<and> y ! i = c}"
    by (rule card_mono) auto
  also have "\<dots> = length (filter (\<lambda>l. l = c) y)"
    by (simp add: length_filter_conv_card)
  also have "\<dots> = count_list y c"
    by (induction y) auto
  finally show ?thesis using assms by (simp add: spec_m_length spec_n_def)
qed

lemma spec_F_nonneg: "binary_sparse X \<Longrightarrow> 0 \<le> spec_F X y j"
  unfolding spec_F_def by (rule sum_list_nonneg) (auto simp: spec_m_nonneg)

lemma spec_m_le_F:
  assumes "binary_sparse X" and "c \<in> set y"
  shows "spec_m X y c j \<le> spec_F X y j"
  unfolding spec_F_def
  by (rule member_le_sum_list) (use assms in \<open>auto simp: spec_m_nonneg\<close>)

lemma spec_F_zero:
  assumes "\<forall>(r, c, v)\<in>set (coo X). c \<noteq> j"
  shows "spec_F X y j = 0"
proof -
  have "filter (\<lambda>(r, k, v). k = j \<and> r < length y \<and> y ! r = c) (coo X) = []" for c
    using assms by (auto simp: filter_empty_conv)
  then have "spec_m X y c j = 0" for c by (simp add: spec_m_def)
  then show ?thesis by (simp add: spec_F_def)
qed

lemma spec_F_pos:
  assumes b: "binary_sparse X" and len: "length y = shape_rows X"
    and e: "(r, j, v) \<in> set (coo X)"
  shows "0 < spec_F X y j"
proof -
  from b e have r: "r < length y" using len by (auto simp: binary_sparse_def sparse_ok_def)
  then have c: "y ! r \<in> set y" by simp
  have "(r, j, v) \<in> set (filter (\<lambda>(r', k, v). k = j \<and> r' < length y \<and> y ! r' = y ! r) (coo X))"
    using e r by simp
  then have "0 < length (filter (\<lambda>(r', k, v). k = j \<and> r' < length y \<and> y ! r' = y ! r) (coo X))"
    by (simp only: length_pos_if_in_set)
  then have "0 < spec_m X y (y ! r) j" using b by (simp add: spec_m_length)
  with spec_m_le_F [OF b c, of j] show ?thesis by linarith
qed

lemma entry_bounds:
  fixes m a n :: real
  assumes "0 \<le> m" "m \<le> n" "0 \<le> a"
  shows "0 \<le> (m + a) / (n + a + 1)" and "(m + a) / (n + a + 1) < 1"
    and "((m + a) / (n + a + 1) = 0) = (m = 0 \<and> a = 0)"
  using assms by (auto simp: add_nonneg_eq_0_iff)

subsection \<open>Raising one positive count\<close>

lemma sum_list_update_real:
  "k < length xs \<Longrightarrow> sum_list (xs[k := x]) = sum_list xs + x - xs ! k" for x :: real
  by (induction xs arbitrary: k) (auto split: nat.splits)

lemma nth_le_sum_list_real:
  "\<forall>x\<in>set xs. 0 \<le> x \<Longrightarrow> k < length xs \<Longrightarrow> xs ! k \<le> sum_list xs" for xs :: "real list"
  using member_le_sum_list [of "xs ! k" xs] by simp

lemma frac_less_cross:
  "0 < b \<Longrightarrow> 0 < d \<Longrightarrow> a * d < c * b \<Longrightarrow> a / b < c / d" for a b c d :: real
  by (simp add: field_simps)

lemma wf_increment:
  assumes "wf_ndarray P" and "c < dim0 P"
  shows "wf_ndarray (increment P c j)"
proof -
  from assms have "cells P ! c \<in> set (cells P)" by (simp add: wf_ndarray_def)
  with assms(1) show ?thesis
    by (auto simp: wf_ndarray_def increment_def dest!: subsetD [OF set_update_subset_insert])
qed

lemma increment_cell:
  "wf_ndarray P \<Longrightarrow> c < dim0 P \<Longrightarrow> j < dim1 P \<Longrightarrow>
   cells (increment P c j) ! c ! j = cells P ! c ! j + 1"
  by (simp add: wf_ndarray_def increment_def)

lemma increment_column:
  assumes "wf_ndarray P" "c < dim0 P" "j < dim1 P"
  shows "sum_list (column (increment P c j) j) = sum_list (column P j) + 1"
proof -
  have lc: "c < length (cells P)" and lj: "j < length (cells P ! c)"
    using assms by (auto simp: wf_ndarray_def)
  have "column (increment P c j) j = (column P j)[c := cells P ! c ! j + 1]"
    using lj by (simp add: column_def increment_def map_update)
  moreover have "column P j ! c = cells P ! c ! j" using lc by (simp add: column_def)
  ultimately show ?thesis using lc by (simp add: sum_list_update_real)
qed

lemma smoothed_entry_increases:
  assumes wf: "wf_ndarray P" and c: "c < dim0 P" and j: "j < dim1 P"
    and nonneg: "\<forall>row\<in>set (cells P). \<forall>x\<in>set row. 0 \<le> x" and n: "0 < n"
  shows "smoothed_entry P bc n c j < smoothed_entry (increment P c j) bc n c j"
proof -
  define m where "m = cells P ! c ! j"
  define F where "F = sum_list (column P j)"
  define nc where "nc = real (bc ! c)"
  define d where "d = nc / 10 / real n"
  have lc: "c < length (cells P)" and lj: "j < length (cells P ! c)"
    using wf c j by (auto simp: wf_ndarray_def)
  have col: "\<forall>x\<in>set (column P j). 0 \<le> x"
  proof
    fix x assume "x \<in> set (column P j)"
    then obtain row where row: "row \<in> set (cells P)" "x = row ! j" by (auto simp: column_def)
    then have "j < length row" using wf j by (simp add: wf_ndarray_def)
    then show "0 \<le> x" using nonneg row by simp
  qed
  have "column P j ! c = m" using lc by (simp add: column_def m_def)
  then have mF: "m \<le> F"
    using nth_le_sum_list_real [OF col, of c] lc by (simp add: F_def column_def)
  have nc0: "0 \<le> nc" by (simp add: nc_def)
  have d0: "0 \<le> d" using nc0 n by (simp add: d_def)
  have e: "smoothed_entry P bc n c j = (m + d * F) / (nc + d * F + 1)"
    by (simp add: smoothed_entry_def prior_a_def m_def F_def nc_def d_def)
  have e': "smoothed_entry (increment P c j) bc n c j = (m + 1 + d * (F + 1)) / (nc + d * (F + 1) + 1)"
    using increment_cell [OF wf c j] increment_column [OF wf c j]
    by (simp add: smoothed_entry_def prior_a_def m_def F_def nc_def d_def)
  have F0: "0 \<le> F" unfolding F_def by (rule sum_list_nonneg) (use col in simp)
  have D: "0 < nc + d * F + 1" using nc0 d0 F0 by (simp add: add_nonneg_pos)
  have D': "0 < nc + d * (F + 1) + 1" using nc0 d0 F0 by (simp add: add_nonneg_pos)
  have h1: "0 \<le> d * (F - m)" using d0 mF by simp
  have h2: "0 < (nc + 1) * (1 + d)" using nc0 d0 by (simp add: add_nonneg_pos)
  have "(m + 1 + d * (F + 1)) * (nc + d * F + 1) - (m + d * F) * (nc + d * (F + 1) + 1) =
        (nc + 1) * (1 + d) + d * (F - m)"
    by (simp add: algebra_simps)
  then have "(m + d * F) * (nc + d * (F + 1) + 1) < (m + 1 + d * (F + 1)) * (nc + d * F + 1)"
    using h1 h2 by linarith
  from frac_less_cross [OF D D' this] show ?thesis unfolding e e' .
qed

section \<open>Properties of prediction\<close>

subsection \<open>The arg-max of a row\<close>

lemma argmax_from_map:
  assumes "\<And>x y. (f x < f y) = (x < y)"
  shows "argmax_from (map f xs) i b (f t) = argmax_from xs i b t"
  by (induction xs arbitrary: i b t) (simp_all add: assms)

lemma argmax_map:
  assumes "\<And>x y. (f x < f y) = (x < y)"
  shows "argmax (map f r) = argmax r"
proof (cases r)
  case Nil
  then show ?thesis by simp
next
  case (Cons x xs)
  then show ?thesis by (simp add: argmax_def argmax_from_map [of f, OF assms])
qed

lemma argmax_from_less: "b < i \<Longrightarrow> argmax_from xs i b t < i + length xs"
proof (induction xs arbitrary: i b t)
  case Nil
  then show ?case by simp
next
  case (Cons x xs)
  have "argmax_from xs (Suc i) i x < Suc i + length xs"
    by (rule Cons.IH) simp
  moreover have "argmax_from xs (Suc i) b t < Suc i + length xs"
    by (rule Cons.IH) (use Cons.prems in simp)
  ultimately show ?case by simp
qed

lemma argmax_less: "r \<noteq> [] \<Longrightarrow> argmax r < length r"
  using argmax_from_less [of 0 1 "tl r" "hd r"] by (cases r) (simp_all add: argmax_def)

lemma argmax_from_const: "\<forall>x\<in>set xs. x \<le> t \<Longrightarrow> argmax_from xs i b t = b"
  by (induction xs arbitrary: i) auto

lemma argmax_replicate: "argmax (replicate n v) = 0"
  by (cases n) (simp_all add: argmax_def argmax_from_const)

lemma normalise_rows:
  "map2 (\<lambda>r s. map (\<lambda>p. p / s) r) probs (map sum_list probs) =
   map (\<lambda>r. map (\<lambda>p. p / sum_list r) r) probs"
  by (induction probs) simp_all

lemma sum_exp_pos: "r \<noteq> [] \<Longrightarrow> 0 < sum_list (map (\<lambda>x. exp (x - m)) r)" for m :: real
proof (induction r)
  case Nil
  then show ?case by simp
next
  case (Cons x xs)
  have "0 \<le> sum_list (map (\<lambda>x. exp (x - m)) xs)"
    by (rule sum_list_nonneg) auto
  moreover have "0 < exp (x - m)" by simp
  ultimately have "0 < exp (x - m) + sum_list (map (\<lambda>x. exp (x - m)) xs)"
    by (rule add_pos_nonneg [rotated])
  then show ?case by simp
qed

lemma argmax_softmax:
  "argmax (map (\<lambda>p. p / sum_list (map exp (map (\<lambda>x. x - row_max r) r)))
             (map exp (map (\<lambda>x. x - row_max r) r))) = argmax r"
proof (cases "r = []")
  case True
  then show ?thesis by simp
next
  case False
  let ?s = "sum_list (map (\<lambda>x. exp (x - row_max r)) r)"
  have s: "0 < ?s" by (rule sum_exp_pos [OF False])
  have mono: "(exp (x - row_max r) / ?s < exp (y - row_max r) / ?s) = (x < y)" for x y
    using s by (simp add: divide_strict_right_mono divide_less_cancel)
  have eq: "map (\<lambda>p. p / sum_list (map exp (map (\<lambda>x. x - row_max r) r)))
             (map exp (map (\<lambda>x. x - row_max r) r)) = map (\<lambda>x. exp (x - row_max r) / ?s) r"
    by (simp add: comp_def)
  show ?thesis unfolding eq by (rule argmax_map [OF mono])
qed

lemma predict_value:
  "predict self X =
     (case model self of
        None \<Rightarrow> Inl AttributeError
      | Some M \<Rightarrow>
          (case accumulate M (coo X) (replicate (shape_rows X) (replicate (dim0 M) 0)) of
             Inl e \<Rightarrow> Inl e
           | Inr joint1 \<Rightarrow>
               (case add_log_prior (PRIOR self) (dim0 M) joint1 of
                  Inl e \<Rightarrow> Inl e
                | Inr joint2 \<Rightarrow>
                    if dim0 M = 0 then Inl ValueError
                    else Inr (map (\<lambda>r. int (argmax r) + 1) joint2))))"
proof -
  have fin: "map (\<lambda>r. int (argmax r) + 1)
          (map2 (\<lambda>r s. map (\<lambda>p. p / s) r) (map (map exp) (map (\<lambda>r. map (\<lambda>x. x - row_max r) r) joint2))
             (map sum_list (map (map exp) (map (\<lambda>r. map (\<lambda>x. x - row_max r) r) joint2)))) =
        map (\<lambda>r. int (argmax r) + 1) joint2" for joint2
    unfolding normalise_rows by (induction joint2) (simp_all add: argmax_softmax del: map_map)
  show ?thesis
    by (simp add: predict_def Let_def fin del: map_map split: option.splits sum.splits)
qed

subsection \<open>The accumulation loop\<close>

lemma accumulate_returns:
  "\<forall>(r, c, v)\<in>set es. r < length joint \<and> c < dim1 M \<Longrightarrow>
   \<exists>joint'. accumulate M es joint = Inr joint'"
proof (induction es arbitrary: joint)
  case Nil
  then show ?case by simp
next
  case (Cons e es)
  obtain r c v where e: "e = (r, c, v)" by (cases e)
  have "\<forall>(r', c', v')\<in>set es.
          r' < length (joint[r := map2 (+) (joint ! r) (column M c)]) \<and> c' < dim1 M"
    using Cons.prems by simp
  from Cons.IH [OF this] show ?case using Cons.prems e by auto
qed

lemma accumulate_length: "accumulate M es joint = Inr joint' \<Longrightarrow> length joint' = length joint"
proof (induction es arbitrary: joint)
  case Nil
  then show ?case by simp
next
  case (Cons e es)
  obtain r c v where e: "e = (r, c, v)" by (cases e)
  from Cons.prems e have "accumulate M es (joint[r := map2 (+) (joint ! r) (column M c)]) = Inr joint'"
    by (simp split: if_splits)
  from Cons.IH [OF this] show ?case by simp
qed

lemma accumulate_row_length:
  "accumulate M es joint = Inr joint' \<Longrightarrow> \<forall>row\<in>set joint. length row = length (cells M) \<Longrightarrow>
   \<forall>row\<in>set joint'. length row = length (cells M)"
proof (induction es arbitrary: joint)
  case Nil
  then show ?case by simp
next
  case (Cons e es)
  obtain r c v where e: "e = (r, c, v)" by (cases e)
  from Cons.prems(1) e have rest: "accumulate M es (joint[r := map2 (+) (joint ! r) (column M c)]) = Inr joint'"
    and r: "r < length joint"
    by (simp_all split: if_splits)
  have "length (joint ! r) = length (cells M)" using Cons.prems(2) r by simp
  then have "\<forall>row\<in>set (joint[r := map2 (+) (joint ! r) (column M c)]). length row = length (cells M)"
    using Cons.prems(2) by (auto dest!: subsetD [OF set_update_subset_insert])
  from Cons.IH [OF rest this] show ?case .
qed

lemma accumulate_untouched:
  "accumulate M es joint = Inr joint' \<Longrightarrow> \<forall>(r, c, v)\<in>set es. r \<noteq> i \<Longrightarrow> joint' ! i = joint ! i"
proof (induction es arbitrary: joint)
  case Nil
  then show ?case by simp
next
  case (Cons e es)
  obtain r c v where e: "e = (r, c, v)" by (cases e)
  from Cons.prems(1) e have rest: "accumulate M es (joint[r := map2 (+) (joint ! r) (column M c)]) = Inr joint'"
    by (simp split: if_splits)
  have a: "\<forall>(r, c, v)\<in>set es. r \<noteq> i" and ri: "r \<noteq> i" using Cons.prems(2) e by auto
  from Cons.IH [OF rest a] have "joint' ! i = (joint[r := map2 (+) (joint ! r) (column M c)]) ! i" .
  with ri show ?case by simp
qed

lemma predict_joint:
  assumes c: "constructed self" and m: "model self = Some M" and wf: "wf_ndarray M"
    and k: "int (dim0 M) = n_classes self" and X: "sparse_ok X" and cols: "shape_cols X = dim1 M"
  obtains joint1 where
    "accumulate M (coo X) (replicate (shape_rows X) (replicate (dim0 M) 0)) = Inr joint1"
    "length joint1 = shape_rows X"
    "\<forall>row\<in>set joint1. length row = dim0 M"
    "predict self X =
       Inr (map (\<lambda>r. int (argmax r) + 1)
              (map (\<lambda>r. map2 (+) r (map ln (PRIOR self))) joint1))"
proof -
  let ?z = "replicate (shape_rows X) (replicate (dim0 M) (0::real))"
  have "\<forall>(r, c, v)\<in>set (coo X). r < length ?z \<and> c < dim1 M"
    using X cols by (auto simp: sparse_ok_def)
  from accumulate_returns [OF this] obtain joint1 where j1: "accumulate M (coo X) ?z = Inr joint1"
    by blast
  have len: "length joint1 = shape_rows X" using accumulate_length [OF j1] by simp
  have lc: "length (cells M) = dim0 M" using wf by (simp add: wf_ndarray_def)
  have rows: "\<forall>row\<in>set joint1. length row = dim0 M"
    using accumulate_row_length [OF j1] lc by simp
  have pos: "0 < dim0 M" and lp: "length (PRIOR self) = dim0 M"
    using c k by (auto simp: constructed_def)
  have "predict self X =
       Inr (map (\<lambda>r. int (argmax r) + 1) (map (\<lambda>r. map2 (+) r (map ln (PRIOR self))) joint1))"
    using m j1 pos lp by (simp add: predict_value add_log_prior_def del: map_map)
  with j1 len rows show thesis by (rule that)
qed

lemma predict_zero_row_label:
  assumes c: "constructed self" and i: "i < shape_rows X"
    and z: "\<forall>(r, c, v)\<in>set (coo X). r \<noteq> i" and p: "predict self X = Inr p"
  shows "p ! i = 1"
proof -
  from p obtain M where m: "model self = Some M"
    by (auto simp: predict_value split: option.splits)
  let ?z = "replicate (shape_rows X) (replicate (dim0 M) (0::real))"
  from p m obtain joint1 where j1: "accumulate M (coo X) ?z = Inr joint1"
    by (auto simp: predict_value split: sum.splits)
  from p m j1 obtain joint2 where j2: "add_log_prior (PRIOR self) (dim0 M) joint1 = Inr joint2"
    and res: "p = map (\<lambda>r. int (argmax r) + 1) joint2"
    by (auto simp: predict_value split: sum.splits if_splits)
  have len: "length joint1 = shape_rows X" using accumulate_length [OF j1] by simp
  have row: "joint1 ! i = replicate (dim0 M) 0"
    using accumulate_untouched [OF j1 z] i by simp
  obtain n v where pr: "PRIOR self = replicate n v"
    using c by (auto simp: constructed_def)
  have "\<exists>k w. joint2 ! i = replicate k w"
  proof (cases "length (PRIOR self) = dim0 M")
    case True
    with j2 have "joint2 = map (\<lambda>r. map2 (+) r (map ln (PRIOR self))) joint1"
      by (simp add: add_log_prior_def Let_def)
    then have "joint2 ! i = map2 (+) (replicate (dim0 M) 0) (map ln (replicate n v))"
      using i len row pr by simp
    then show ?thesis by simp
  next
    case False
    with j2 have "joint2 = map (map (\<lambda>x. x + hd (map ln (PRIOR self)))) joint1"
      by (simp add: add_log_prior_def Let_def split: if_splits)
    then have "joint2 ! i = replicate (dim0 M) (0 + hd (map ln (PRIOR self)))"
      using i len row by simp
    then show ?thesis by blast
  qed
  then have "argmax (joint2 ! i) = 0" by (auto simp: argmax_replicate)
  moreover have "length joint2 = shape_rows X"
    using j2 len by (auto simp: add_log_prior_def Let_def split: if_splits)
  ultimately show ?thesis using res i by simp
qed

subsection \<open>The concrete detectors\<close>

lemma constructed_fresh: "0 < k \<Longrightarrow> constructed (fresh k)"
  by (simp add: constructed_def fresh_def)

lemma init_fresh: "0 < k \<Longrightarrow> init (int k) = Inr (fresh k)"
  by (simp add: init_def fresh_def)

lemma fitted_train_ok:
  "constructed fitted_train \<and> model fitted_train = Some table_train \<and> wf_ndarray table_train \<and>
   int (dim0 table_train) = n_classes fitted_train"
  by (simp add: fitted_train_def constructed_def fresh_def table_train_def wf_ndarray_def)

lemma predict_10: "predict fitted_train X_10 = Inr [1]"
  by (simp add: predict_value fitted_train_def fresh_def table_train_def X_10_def add_log_prior_def
      column_def argmax_def numeral_2_eq_2)

lemma predict_01: "predict fitted_train X_01 = Inr [2]"
  by (simp add: predict_value fitted_train_def fresh_def table_train_def X_01_def add_log_prior_def
      column_def argmax_def numeral_2_eq_2)

lemma predict_zr: "predict fitted_train X_zero_row = Inr [1, 2]"
  by (simp add: predict_value fitted_train_def fresh_def table_train_def X_zero_row_def add_log_prior_def
      column_def argmax_def numeral_2_eq_2)

section \<open>The claims\<close>

subsection \<open>C1\<close>

text \<open>
  Claim C1, as the code has it. For a valid input whose distinct labels are exactly
  \<open>1, \<dots>, k\<close>, with \<open>k\<close> the number of distinct labels, \<open>fit\<close> returns, and the
  model entry in row \<open>c - 1\<close> and column \<open>j\<close>, for every label \<open>c\<close> of \<open>y\<close> and
  every feature \<open>j\<close>, is \<open>(m + a) / (n + a + 1)\<close> with the quantities \<open>m\<close>,
  \<open>n\<close>, \<open>b\<close>, \<open>F\<close> and \<open>a\<close> of the specification. For every other valid input
  \<open>fit\<close> raises \<open>IndexError\<close> and stores no model.
\<close>

theorem fit_entry_formula:
  assumes "valid_fit_input X y"
  shows "if set y = {1..int (card (set y))}
         then \<exists>self' M. fit self X y = Inr self' \<and> model self' = Some M \<and>
                (\<forall>c\<in>set y. \<forall>j<shape_cols X.
                   cells M ! nat (c - 1) ! j =
                     (spec_m X y c j + spec_a X y c j) / (spec_n y c + spec_a X y c j + 1))
         else fit self X y = Inl IndexError"
proof (cases "set y = {1..int (card (set y))}")
  case True
  let ?k = "card (set y)"
  let ?zeros = "replicate ?k (replicate (shape_cols X) (0::real))"
  from assms have pos: "\<forall>c\<in>set y. 1 \<le> c" and len: "length y = shape_rows X"
    by (simp_all add: valid_fit_input_def)
  have "\<forall>c\<in>set (sort (remdups y)). \<not> out_of_range (length ?zeros) c"
  proof
    fix c assume "c \<in> set (sort (remdups y))"
    then have "c \<in> set y" by simp
    with True have "c \<in> {1..int ?k}" by blast
    then show "\<not> out_of_range (length ?zeros) c" by (simp add: out_of_range_def)
  qed
  from fit_loop_returns [OF len this] obtain self' where fit: "fit self X y = Inr self'"
    by (auto simp: fit_value)
  from pos len fit obtain M where M: "model self' = Some M"
    and cells: "\<forall>i<card (set y). \<forall>j<shape_cols X.
        cells M ! i ! j =
          (spec_m X y (int i + 1) j + spec_a X y (int i + 1) j) /
          (spec_n y (int i + 1) + spec_a X y (int i + 1) j + 1)"
    by (rule fit_entries)
  have "cells M ! nat (c - 1) ! j =
                (spec_m X y c j + spec_a X y c j) / (spec_n y c + spec_a X y c j + 1)"
    if c: "c \<in> set y" and j: "j < shape_cols X" for c j
  proof -
    from c True have "c \<in> {1..int (card (set y))}" by blast
    then have "nat (c - 1) < card (set y)" and "int (nat (c - 1)) + 1 = c" by auto
    with cells j show ?thesis by (metis (no_types, lifting))
  qed
  with fit M True show ?thesis by auto
next
  case False
  let ?k = "card (set y)"
  let ?zeros = "replicate ?k (replicate (shape_cols X) (0::real))"
  from assms have pos: "\<forall>c\<in>set y. 1 \<le> c" and len: "length y = shape_rows X"
    by (simp_all add: valid_fit_input_def)
  have "\<exists>c\<in>set y. out_of_range ?k c"
  proof (rule ccontr)
    assume "\<not> (\<exists>c\<in>set y. out_of_range ?k c)"
    then have "\<forall>c\<in>set y. 1 \<le> c \<and> c \<le> int ?k" using pos by (auto simp: out_of_range_def)
    from contiguous_labels [OF this] False show False by simp
  qed
  then have "\<exists>c\<in>set (sort (remdups y)). out_of_range (length ?zeros) c" by simp
  from fit_loop_raises [OF len this] have "fit self X y = Inl IndexError"
    by (simp add: fit_value)
  with False show ?thesis by simp
qed

text \<open>
  The training scenario, at label 2 and feature 1.
\<close>

theorem fit_entry_formula_witness:
  "valid_fit_input X_train y_train \<and> set y_train = {1..int (card (set y_train))} \<and>
   (\<exists>self' M. fit (fresh 2) X_train y_train = Inr self' \<and> model self' = Some M \<and>
      cells M ! nat (2 - 1) ! 1 =
        (spec_m X_train y_train 2 1 + spec_a X_train y_train 2 1) /
        (spec_n y_train 2 + spec_a X_train y_train 2 1 + 1))"
proof -
  have "\<forall>c\<in>set y_train. 1 \<le> c \<and> c \<le> int (card (set y_train))"
    by (simp add: y_train_def)
  then have s: "set y_train = {1..int (card (set y_train))}" by (rule contiguous_labels)
  have c: "(2::int) \<in> set y_train" and j: "1 < shape_cols X_train"
    by (simp_all add: y_train_def X_train_def)
  from fit_entry_formula [OF valid_train, of "fresh 2"] s
  obtain self' M where "fit (fresh 2) X_train y_train = Inr self'" "model self' = Some M"
    "\<forall>c\<in>set y_train. \<forall>j<shape_cols X_train.
       cells M ! nat (c - 1) ! j =
         (spec_m X_train y_train c j + spec_a X_train y_train c j) /
         (spec_n y_train c + spec_a X_train y_train c j + 1)"
    by auto
  with c j valid_train s show ?thesis by blast
qed

text \<open>
  Claim C1 as stated fails: the input \<open>[[1,0],[1,0]]\<close> with labels \<open>[1,3]\<close> is valid
  for three classes, yet \<open>fit\<close> raises at row index 2 of a two-row array, so no entry
  is stored for either class.
\<close>

theorem fit_entry_formula_counterexample:
  "init 3 = Inr (fresh 3) \<and> valid_fit_input X_unfollowed [1, 3] \<and>
   list_all (\<lambda>c. c \<le> n_classes (fresh 3)) [1, 3] \<and>
   fit (fresh 3) X_unfollowed [1, 3] = Inl IndexError"
proof -
  have "init 3 = Inr (fresh 3)" using init_fresh [of 3] by simp
  moreover have "valid_fit_input X_unfollowed [1, 3]" by code_simp
  moreover have "list_all (\<lambda>c. c \<le> n_classes (fresh 3)) [1, 3]" by (simp add: fresh_def)
  moreover have "fit (fresh 3) X_unfollowed [1, 3] = Inl IndexError" by code_simp
  ultimately show ?thesis by blast
qed

subsection \<open>C2\<close>

text \<open>
  Claim C2, as the code has it: for a valid input on which \<open>fit\<close> returns, every
  entry of the model is at least 0 and strictly below 1, and an entry is exactly 0
  precisely when its feature has no stored entry in the training matrix (nobody in
  the training set follows that account).
\<close>

theorem fit_entry_bounds:
  assumes "valid_fit_input X y" and "fit self X y = Inr self'"
  shows "\<exists>M. model self' = Some M \<and>
           (\<forall>i<dim0 M. \<forall>j<dim1 M.
              0 \<le> cells M ! i ! j \<and> cells M ! i ! j < 1 \<and>
              (cells M ! i ! j = 0 \<longleftrightarrow> (\<forall>(r, c, v)\<in>set (coo X). c \<noteq> j)))"
proof -
  from assms(1) have pos: "\<forall>c\<in>set y. 1 \<le> c" and len: "length y = shape_rows X"
    and b: "binary_sparse X"
    by (simp_all add: valid_fit_input_def)
  from pos len assms(2) obtain M where M: "model self' = Some M"
    and d0: "dim0 M = card (set y)" and d1: "dim1 M = shape_cols X"
    and sety: "set y = {1..int (card (set y))}"
    and cells: "\<forall>i<card (set y). \<forall>j<shape_cols X.
        cells M ! i ! j =
          (spec_m X y (int i + 1) j + spec_a X y (int i + 1) j) /
          (spec_n y (int i + 1) + spec_a X y (int i + 1) j + 1)"
    by (rule fit_entries)
  have "0 \<le> cells M ! i ! j \<and> cells M ! i ! j < 1 \<and>
        (cells M ! i ! j = 0 \<longleftrightarrow> (\<forall>(r, c, v)\<in>set (coo X). c \<noteq> j))"
    if i: "i < dim0 M" and j: "j < dim1 M" for i j
  proof -
    let ?c = "int i + 1"
    have "?c \<in> {1..int (card (set y))}" using i d0 by simp
    with sety have c: "?c \<in> set y" by blast
    then have n: "1 \<le> spec_n y ?c"
      using count_list_0_iff [of y ?c] by (simp add: spec_n_def Suc_le_eq)
    from c have "0 < length y" by auto
    then have N: "0 < real (shape_rows X)" unfolding len by simp
    have F: "0 \<le> spec_F X y j" by (rule spec_F_nonneg [OF b])
    have a: "0 \<le> spec_a X y ?c j" using n F N by (simp add: spec_a_def spec_b_def)
    have a0: "(spec_a X y ?c j = 0) = (spec_F X y j = 0)"
      using n N by (simp add: spec_a_def spec_b_def)
    have m: "0 \<le> spec_m X y ?c j" "spec_m X y ?c j \<le> spec_n y ?c" "spec_m X y ?c j \<le> spec_F X y j"
      using spec_m_nonneg [OF b] spec_m_le_n [OF b] spec_m_le_F [OF b c] by simp_all
    have F0: "(spec_F X y j = 0) = (\<forall>(r, c, v)\<in>set (coo X). c \<noteq> j)"
      using spec_F_zero [of X j y] spec_F_pos [OF b len, of _ j] by fastforce
    have e: "cells M ! i ! j =
          (spec_m X y ?c j + spec_a X y ?c j) / (spec_n y ?c + spec_a X y ?c j + 1)"
      using cells i j d0 d1 by simp
    have "(cells M ! i ! j = 0) = (spec_m X y ?c j = 0 \<and> spec_a X y ?c j = 0)"
      unfolding e by (rule entry_bounds(3) [OF m(1,2) a])
    also have "\<dots> = (spec_F X y j = 0)" using m a0 by auto
    finally have z: "(cells M ! i ! j = 0) = (\<forall>(r, c, v)\<in>set (coo X). c \<noteq> j)" using F0 by simp
    show ?thesis using entry_bounds(1,2) [OF m(1,2) a] z unfolding e by blast
  qed
  with M show ?thesis by blast
qed

text \<open>
  The training scenario: the entry of class 1 at feature 1 lies strictly between 0 and 1.
\<close>

theorem fit_entry_bounds_witness:
  "valid_fit_input X_train y_train \<and> fit (fresh 2) X_train y_train = Inr fitted_train \<and>
   model fitted_train = Some table_train \<and>
   0 \<le> cells table_train ! 0 ! 1 \<and> cells table_train ! 0 ! 1 < 1 \<and> cells table_train ! 0 ! 1 \<noteq> 0"
proof -
  have f: "fit (fresh 2) X_train y_train = Inr fitted_train"
    unfolding fitted_train_def by (rule fit_train)
  have m: "model fitted_train = Some table_train" by (simp add: fitted_train_def)
  have d: "0 < dim0 table_train" "1 < dim1 table_train" by (simp_all add: table_train_def)
  have e: "\<not> (\<forall>(r, c, v)\<in>set (coo X_train). c \<noteq> 1)" by (simp add: X_train_def)
  from fit_entry_bounds [OF valid_train f] m d e
  have "0 \<le> cells table_train ! 0 ! 1 \<and> cells table_train ! 0 ! 1 < 1 \<and> cells table_train ! 0 ! 1 \<noteq> 0"
    by auto
  with valid_train f m show ?thesis by blast
qed

text \<open>
  Claim C2 as stated fails: on the valid input \<open>[[1,0],[1,0]]\<close> with labels
  \<open>[1,2]\<close> and two classes, the entries of the second feature are exactly 0.
\<close>

theorem fit_entry_bounds_counterexample:
  "valid_fit_input X_unfollowed [1, 2] \<and> init 2 = Inr (fresh 2) \<and>
   fit (fresh 2) X_unfollowed [1, 2] =
     Inr ((fresh 2)\<lparr>model := Some \<lparr>dim0 = 2, dim1 = 2, cells = [[11 / 21, 0], [11 / 21, 0]]\<rparr>\<rparr>) \<and>
   cells \<lparr>dim0 = 2, dim1 = 2, cells = [[11 / 21, 0], [11 / 21, 0]]\<rparr> ! 0 ! 1 = 0"
proof -
  have "valid_fit_input X_unfollowed [1, 2]" by code_simp
  moreover have "init 2 = Inr (fresh 2)" by (simp add: init_def fresh_def)
  moreover have "fit (fresh 2) X_unfollowed [1, 2] =
     Inr ((fresh 2)\<lparr>model := Some \<lparr>dim0 = 2, dim1 = 2, cells = [[11 / 21, 0], [11 / 21, 0]]\<rparr>\<rparr>)"
    by code_simp
  moreover have "cells \<lparr>dim0 = 2, dim1 = 2, cells = [[11 / 21, 0], [11 / 21, 0 :: real]]\<rparr> ! 0 ! 1 = 0"
    by simp
  ultimately show ?thesis by blast
qed

subsection \<open>C3\<close>

text \<open>
  Claim C3, as the code has it: when \<open>fit\<close> returns, the model has one row per distinct
  label of \<open>y\<close> and one column per column of \<open>X\<close>, and its rows agree with that
  shape. The number of rows is the number of distinct labels, whatever \<open>n_classes\<close>
  was given at construction.
\<close>

theorem fit_model_shape:
  assumes "fit self X y = Inr self'"
  shows "\<exists>M. model self' = Some M \<and> dim0 M = card (set y) \<and> dim1 M = shape_cols X \<and> wf_ndarray M"
  using assms by (auto simp: fit_value wf_ndarray_def split: sum.splits)

text \<open>The training scenario satisfies the hypothesis of the shape theorem.\<close>

theorem fit_model_shape_witness:
  "fit (fresh 2) X_train y_train = Inr ((fresh 2)\<lparr>model := Some table_train\<rparr>) \<and>
   dim0 table_train = card (set y_train) \<and> dim1 table_train = shape_cols X_train \<and>
   wf_ndarray table_train"
  using fit_model_shape [OF fit_train] fit_train by simp

text \<open>
  Claim C3 as stated fails: a detector constructed for seven classes and fitted on two
  rows that are both labelled 1 holds a model with one row, not seven.
\<close>

theorem fit_model_shape_counterexample:
  "init 7 = Inr (fresh 7) \<and> n_classes (fresh 7) = 7 \<and> valid_fit_input X_unfollowed [1, 1] \<and>
   fit (fresh 7) X_unfollowed [1, 1] =
     Inr ((fresh 7)\<lparr>model := Some \<lparr>dim0 = 1, dim1 = 2, cells = [[11 / 16, 0]]\<rparr>\<rparr>)"
  by code_simp

subsection \<open>C4\<close>

text \<open>
  Claim C4, as the code has it: for a detector as \<open>__init__\<close> constructs it whose
  model has exactly \<open>n_classes\<close> rows, and an input whose stored entries lie inside
  its shape and whose column count is the model's, \<open>predict\<close> returns one label per
  input row, each between 1 and \<open>n_classes\<close>.
\<close>

theorem predict_labels:
  assumes "constructed self" and "model self = Some M" and "wf_ndarray M"
    and "int (dim0 M) = n_classes self" and "sparse_ok X" and "shape_cols X = dim1 M"
  shows "\<exists>p. predict self X = Inr p \<and> length p = shape_rows X \<and>
             (\<forall>l\<in>set p. 1 \<le> l \<and> l \<le> n_classes self)"
proof -
  from assms obtain joint1 where
    len: "length joint1 = shape_rows X" and
    rows: "\<forall>row\<in>set joint1. length row = dim0 M" and
    p: "predict self X =
       Inr (map (\<lambda>r. int (argmax r) + 1) (map (\<lambda>r. map2 (+) r (map ln (PRIOR self))) joint1))"
    by (rule predict_joint)
  have pos: "0 < dim0 M" and lp: "length (PRIOR self) = dim0 M"
    using assms(1,4) by (auto simp: constructed_def)
  have "1 \<le> int (argmax (map2 (+) r (map ln (PRIOR self)))) + 1 \<and>
        int (argmax (map2 (+) r (map ln (PRIOR self)))) + 1 \<le> n_classes self"
    if "r \<in> set joint1" for r
  proof -
    let ?q = "map2 (+) r (map ln (PRIOR self))"
    have l: "length ?q = dim0 M" using rows that lp by simp
    then have ne: "?q \<noteq> []" using pos by auto
    have "argmax ?q < length ?q" by (rule argmax_less [OF ne])
    then have "argmax ?q < dim0 M" by (simp only: l)
    with assms(4) show ?thesis by linarith
  qed
  then show ?thesis using p len by (auto simp del: map_map)
qed

text \<open>
  The fitted training scenario and a two-row input satisfy the hypotheses.
\<close>

theorem predict_labels_witness:
  "constructed fitted_train \<and> model fitted_train = Some table_train \<and> wf_ndarray table_train \<and>
   int (dim0 table_train) = n_classes fitted_train \<and> sparse_ok X_zero_row \<and>
   shape_cols X_zero_row = dim1 table_train \<and>
   (\<exists>p. predict fitted_train X_zero_row = Inr p \<and> length p = shape_rows X_zero_row \<and>
        (\<forall>l\<in>set p. 1 \<le> l \<and> l \<le> n_classes fitted_train))"
proof -
  have X: "sparse_ok X_zero_row" by (simp add: sparse_ok_def X_zero_row_def)
  have c: "shape_cols X_zero_row = dim1 table_train" by (simp add: X_zero_row_def table_train_def)
  from fitted_train_ok have h: "constructed fitted_train" "model fitted_train = Some table_train"
    "wf_ndarray table_train" "int (dim0 table_train) = n_classes fitted_train" by blast+
  from predict_labels [OF h X c] h X c show ?thesis by blast
qed

text \<open>
  Claim C4 as stated fails: a detector constructed for three classes and fitted on
  labels 1 and 2 only holds a model with two rows; adding the three logarithms of
  \<open>PRIOR\<close> to rows of length two raises \<open>ValueError\<close>, so no labels are returned
  although the feature counts agree.
\<close>

theorem predict_labels_counterexample:
  "init 3 = Inr (fresh 3) \<and> valid_fit_input X_unfollowed [1, 2] \<and>
   fit (fresh 3) X_unfollowed [1, 2] =
     Inr ((fresh 3)\<lparr>model := Some \<lparr>dim0 = 2, dim1 = 2, cells = [[11 / 21, 0], [11 / 21, 0]]\<rparr>\<rparr>) \<and>
   shape_cols X_unfollowed = 2 \<and>
   predict ((fresh 3)\<lparr>model := Some \<lparr>dim0 = 2, dim1 = 2, cells = [[11 / 21, 0], [11 / 21, 0]]\<rparr>\<rparr>)
     X_unfollowed = Inl ValueError"
proof -
  have "init 3 = Inr (fresh 3)" using init_fresh [of 3] by simp
  moreover have "valid_fit_input X_unfollowed [1, 2]" by code_simp
  moreover have "fit (fresh 3) X_unfollowed [1, 2] =
     Inr ((fresh 3)\<lparr>model := Some \<lparr>dim0 = 2, dim1 = 2, cells = [[11 / 21, 0], [11 / 21, 0]]\<rparr>\<rparr>)"
    by code_simp
  moreover have "shape_cols X_unfollowed = 2" by (simp add: X_unfollowed_def)
  moreover have "predict ((fresh 3)\<lparr>model := Some \<lparr>dim0 = 2, dim1 = 2, cells = [[11 / 21, 0], [11 / 21, 0]]\<rparr>\<rparr>)
     X_unfollowed = Inl ValueError"
    by (simp add: predict_value fresh_def X_unfollowed_def add_log_prior_def column_def)
  ultimately show ?thesis by blast
qed

subsection \<open>C5\<close>

text \<open>
  Claim C5: the end-to-end scenario with two classes. Fitting the four rows gives a
  table whose first row is larger at feature 0 and whose second row is larger at
  feature 1; the row \<open>[1,0]\<close> is predicted as class 1 and the row \<open>[0,1]\<close> as
  class 2.
\<close>

theorem scenario:
  "csr_matrix [[1, 0], [1, 0], [0, 1], [0, 1]] = X_train \<and>
   csr_matrix [[1, 0]] = X_10 \<and> csr_matrix [[0, 1]] = X_01 \<and>
   init 2 = Inr (fresh 2) \<and>
   fit (fresh 2) X_train y_train = Inr fitted_train \<and>
   model fitted_train = Some table_train \<and>
   cells table_train ! 0 ! 1 < cells table_train ! 0 ! 0 \<and>
   cells table_train ! 1 ! 0 < cells table_train ! 1 ! 1 \<and>
   predict fitted_train X_10 = Inr [1] \<and>
   predict fitted_train X_01 = Inr [2]"
proof -
  have "csr_matrix [[1, 0], [1, 0], [0, 1], [0, 1]] = X_train"
    and "csr_matrix [[1, 0]] = X_10" and "csr_matrix [[0, 1]] = X_01"
    by code_simp+
  moreover have "init 2 = Inr (fresh 2)" using init_fresh [of 2] by simp
  moreover have "fit (fresh 2) X_train y_train = Inr fitted_train"
    unfolding fitted_train_def by (rule fit_train)
  moreover have "model fitted_train = Some table_train" by (simp add: fitted_train_def)
  moreover have "cells table_train ! 0 ! 1 < cells table_train ! 0 ! 0"
    by (simp add: table_train_def)
  moreover have "cells table_train ! 1 ! 0 < cells table_train ! 1 ! 1"
    by (simp add: table_train_def)
  ultimately show ?thesis using predict_10 predict_01 by blast
qed

subsection \<open>C6\<close>

text \<open>
  Claim C6: on a well-formed array of non-negative positive counts, with the bucket
  counts and a positive number of samples held fixed, raising the count of one class
  row \<open>c\<close> and feature \<open>j\<close> by one strictly raises the smoothed entry at
  \<open>(c, j)\<close>.
\<close>

theorem smoothing_monotone:
  assumes "wf_ndarray P" and "length bc = dim0 P" and "c < dim0 P" and "j < dim1 P"
    and "\<forall>row\<in>set (cells P). \<forall>x\<in>set row. 0 \<le> x" and "0 < n"
  shows "\<exists>M M'. smoothed P bc n = Inr M \<and> smoothed (increment P c j) bc n = Inr M' \<and>
                 cells M ! c ! j < cells M' ! c ! j"
proof -
  have wf': "wf_ndarray (increment P c j)" by (rule wf_increment [OF assms(1,3)])
  have dims: "dim0 (increment P c j) = dim0 P" "dim1 (increment P c j) = dim1 P"
    by (simp_all add: increment_def)
  have len': "length bc = dim0 (increment P c j)" using assms(2) dims by simp
  have "cells \<lparr>dim0 = dim0 Q, dim1 = dim1 Q,
           cells = map (\<lambda>i. map (\<lambda>j. smoothed_entry Q bc n i j) [0..<dim1 Q]) [0..<dim0 Q]\<rparr> ! c ! j =
        smoothed_entry Q bc n c j" if "c < dim0 Q" "j < dim1 Q" for Q
    using that by simp
  then show ?thesis
    using smoothed_value [OF assms(1,2), of n] smoothed_value [OF wf' len', of n]
      smoothed_entry_increases [OF assms(1,3,4,5,6), of bc] assms(3,4) dims
    by simp
qed

text \<open>
  Counts \<open>[[1,0],[0,2]]\<close> with bucket counts \<open>[2,2]\<close> and four samples, raised
  at row 0 and feature 1.
\<close>

theorem smoothing_monotone_witness:
  "wf_ndarray P_counts \<and> length [2, 2 :: nat] = dim0 P_counts \<and> 0 < dim0 P_counts \<and> 1 < dim1 P_counts \<and>
   list_all (list_all (\<lambda>x. 0 \<le> x)) (cells P_counts) \<and> (0::nat) < 4 \<and>
   (\<exists>M M'. smoothed P_counts [2, 2] 4 = Inr M \<and> smoothed (increment P_counts 0 1) [2, 2] 4 = Inr M' \<and>
                 cells M ! 0 ! 1 < cells M' ! 0 ! 1)"
proof -
  have a: "wf_ndarray P_counts" by (simp add: wf_ndarray_def P_counts_def)
  have b: "length [2, 2 :: nat] = dim0 P_counts" by (simp add: P_counts_def)
  have c: "0 < dim0 P_counts" by (simp add: P_counts_def)
  have d: "1 < dim1 P_counts" by (simp add: P_counts_def)
  have e: "\<forall>row\<in>set (cells P_counts). \<forall>x\<in>set row. 0 \<le> x" by (simp add: P_counts_def)
  have e': "list_all (list_all (\<lambda>x. 0 \<le> x)) (cells P_counts)" by (simp add: P_counts_def)
  have f: "(0::nat) < 4" by simp
  from smoothing_monotone [OF a b c d e f] a b c d e' f show ?thesis by blast
qed

subsection \<open>C7\<close>

text \<open>
  Claim C7, as the code has it: for a detector as \<open>__init__\<close> constructs it and a row
  of the input without any stored entry, every result that \<open>predict\<close> returns gives
  that row class 1, whatever the values of the model: the scores of the row are the
  equal logarithms of the uniform prior, and the arg-max takes the first of equal
  values. And \<open>predict\<close> does return when the model has exactly \<open>n_classes\<close> rows
  and the input fits its columns.
\<close>

theorem predict_zero_row:
  assumes "constructed self" and "i < shape_rows X" and "\<forall>(r, c, v)\<in>set (coo X). r \<noteq> i"
  shows "(\<forall>p. predict self X = Inr p \<longrightarrow> p ! i = 1) \<and>
         (\<forall>M. model self = Some M \<and> wf_ndarray M \<and> int (dim0 M) = n_classes self \<and>
               sparse_ok X \<and> shape_cols X = dim1 M \<longrightarrow> (\<exists>p. predict self X = Inr p))"
proof (intro conjI allI impI)
  fix p assume "predict self X = Inr p"
  with assms show "p ! i = 1" by (rule predict_zero_row_label)
next
  fix M
  assume h: "model self = Some M \<and> wf_ndarray M \<and> int (dim0 M) = n_classes self \<and>
               sparse_ok X \<and> shape_cols X = dim1 M"
  then have "model self = Some M" "wf_ndarray M" "int (dim0 M) = n_classes self"
    "sparse_ok X" "shape_cols X = dim1 M" by blast+
  from predict_joint [OF assms(1) this] show "\<exists>p. predict self X = Inr p" by metis
qed

text \<open>
  The first row of the two-row input has no stored entry.
\<close>

theorem predict_zero_row_witness:
  "constructed fitted_train \<and> 0 < shape_rows X_zero_row \<and>
   list_all (\<lambda>(r, c, v). r \<noteq> 0) (coo X_zero_row) \<and>
   model fitted_train = Some table_train \<and> wf_ndarray table_train \<and>
   int (dim0 table_train) = n_classes fitted_train \<and> sparse_ok X_zero_row \<and>
   shape_cols X_zero_row = dim1 table_train \<and>
   (\<exists>p. predict fitted_train X_zero_row = Inr p \<and> p ! 0 = 1)"
proof -
  have X: "sparse_ok X_zero_row" by (simp add: sparse_ok_def X_zero_row_def)
  have c: "shape_cols X_zero_row = dim1 table_train" by (simp add: X_zero_row_def table_train_def)
  have r: "0 < shape_rows X_zero_row" by (simp add: X_zero_row_def)
  have z: "\<forall>(r, c, v)\<in>set (coo X_zero_row). r \<noteq> 0" by (simp add: X_zero_row_def)
  have z': "list_all (\<lambda>(r, c, v). r \<noteq> 0) (coo X_zero_row)" by (simp add: X_zero_row_def)
  from fitted_train_ok have h: "constructed fitted_train" "model fitted_train = Some table_train"
    "wf_ndarray table_train" "int (dim0 table_train) = n_classes fitted_train" by blast+
  from predict_zero_row [OF h(1) r z] h X c
  have "\<exists>p. predict fitted_train X_zero_row = Inr p \<and> p ! 0 = 1" by blast
  with h X c r z' show ?thesis by blast
qed

text \<open>
  Claim C7 as stated fails: a detector constructed for three classes and fitted on
  labels 1 and 2 only holds a model with two rows, and \<open>predict\<close> on the input
  \<open>[[0,0],[0,1]]\<close>, whose first row has no stored entry, raises \<open>ValueError\<close>
  instead of returning a class.
\<close>

theorem predict_zero_row_counterexample:
  "init 3 = Inr (fresh 3) \<and> valid_fit_input X_unfollowed [1, 2] \<and>
   fit (fresh 3) X_unfollowed [1, 2] =
     Inr ((fresh 3)\<lparr>model := Some \<lparr>dim0 = 2, dim1 = 2, cells = [[11 / 21, 0], [11 / 21, 0]]\<rparr>\<rparr>) \<and>
   shape_cols X_zero_row = 2 \<and> 0 < shape_rows X_zero_row \<and>
   list_all (\<lambda>(r, c, v). r \<noteq> 0) (coo X_zero_row) \<and>
   predict ((fresh 3)\<lparr>model := Some \<lparr>dim0 = 2, dim1 = 2, cells = [[11 / 21, 0], [11 / 21, 0]]\<rparr>\<rparr>)
     X_zero_row = Inl ValueError"
proof -
  have "init 3 = Inr (fresh 3)" using init_fresh [of 3] by simp
  moreover have "valid_fit_input X_unfollowed [1, 2]" by code_simp
  moreover have "fit (fresh 3) X_unfollowed [1, 2] =
     Inr ((fresh 3)\<lparr>model := Some \<lparr>dim0 = 2, dim1 = 2, cells = [[11 / 21, 0], [11 / 21, 0]]\<rparr>\<rparr>)"
    by code_simp
  moreover have "shape_cols X_zero_row = 2" "0 < shape_rows X_zero_row"
    "list_all (\<lambda>(r, c, v). r \<noteq> 0) (coo X_zero_row)"
    by (simp_all add: X_zero_row_def)
  moreover have "predict ((fresh 3)\<lparr>model := Some \<lparr>dim0 = 2, dim1 = 2, cells = [[11 / 21, 0], [11 / 21, 0]]\<rparr>\<rparr>)
     X_zero_row = Inl ValueError"
    by (simp add: predict_value fresh_def X_zero_row_def add_log_prior_def column_def)
  ultimately show ?thesis by blast
qed

subsection \<open>C8\<close>

text \<open>
  Claim C8, as the code has it: with the model unset, \<open>predict\<close> fails with the
  \<open>AttributeError\<close> of reading \<open>shape\<close> from \<open>None\<close>; the code has no error of
  its own for an untrained model.
\<close>

theorem predict_untrained:
  assumes "model self = None"
  shows "predict self X = Inl AttributeError"
  using assms by (simp add: predict_def)

text \<open>
  A freshly constructed detector has no model.
\<close>

theorem predict_untrained_witness:
  "model (fresh 2) = None \<and> predict (fresh 2) X_10 = Inl AttributeError"
proof -
  have "model (fresh 2) = None" by (simp add: fresh_def)
  with predict_untrained [OF this, of X_10] show ?thesis by blast
qed

text \<open>
  Claim C8 as stated fails: the failure of \<open>predict\<close> on a freshly constructed
  detector is the dereference of the unset model, not a dedicated error.
\<close>

theorem predict_untrained_counterexample:
  "init 2 = Inr (fresh 2) \<and> predict (fresh 2) X_10 = Inl AttributeError"
proof -
  have "init 2 = Inr (fresh 2)" using init_fresh [of 2] by simp
  moreover have "predict (fresh 2) X_10 = Inl AttributeError" by (simp add: predict_def fresh_def)
  ultimately show ?thesis by blast
qed

subsection \<open>C9\<close>

text \<open>
  Claim C9: when \<open>fit\<close> returns on \<open>(X, y)\<close>, fitting the resulting detector on the
  same \<open>(X, y)\<close> again returns the same detector, and the result does not depend on
  the model that was stored before: the model is overwritten, nothing accumulates.
\<close>

theorem fit_idempotent:
  assumes "fit self X y = Inr self'"
  shows "fit self' X y = Inr self' \<and> (\<forall>m. fit (self\<lparr>model := m\<rparr>) X y = Inr self')"
  using assms by (auto simp: fit_value split: sum.splits)

text \<open>The training scenario, fitted twice.\<close>

theorem fit_idempotent_witness:
  "fit (fresh 2) X_train y_train = Inr ((fresh 2)\<lparr>model := Some table_train\<rparr>) \<and>
   fit ((fresh 2)\<lparr>model := Some table_train\<rparr>) X_train y_train = Inr ((fresh 2)\<lparr>model := Some table_train\<rparr>)"
  using fit_idempotent [OF fit_train] fit_train by simp

subsection \<open>C10\<close>

text \<open>
  Claim C10, as the code has it. Let \<open>k\<close> be the number of distinct labels of \<open>y\<close>,
  with one label per row of \<open>X\<close>. \<open>fit\<close> raises \<open>IndexError\<close> exactly when some
  label lies outside \<open>1 - k, \<dots>, k\<close> (the row index \<open>c - 1\<close> of a label
  \<open>c \<le> 0\<close> counts from the end), and returns otherwise. When all labels are at
  least 1, some label is outside that range exactly when the distinct labels are not
  \<open>{1, \<dots>, k}\<close>.
\<close>

theorem fit_bucketing_error:
  assumes "length y = shape_rows X"
  shows "(if \<exists>c\<in>set y. out_of_range (card (set y)) c
          then fit self X y = Inl IndexError else (\<exists>self'. fit self X y = Inr self')) \<and>
         ((\<forall>c\<in>set y. 1 \<le> c) \<longrightarrow>
            ((\<exists>c\<in>set y. out_of_range (card (set y)) c) \<longleftrightarrow> set y \<noteq> {1..int (card (set y))}))"
proof -
  let ?k = "card (set y)"
  let ?bins = "sort (remdups y)"
  let ?zeros = "replicate ?k (replicate (shape_cols X) (0::real))"
  have a: "fit self X y = Inl IndexError" if "\<exists>c\<in>set y. out_of_range ?k c"
    using fit_loop_raises [OF assms, of ?bins ?zeros] that by (simp add: fit_value)
  have b: "\<exists>self'. fit self X y = Inr self'" if "\<not> (\<exists>c\<in>set y. out_of_range ?k c)"
    using fit_loop_returns [OF assms, of ?bins ?zeros] that by (auto simp: fit_value)
  have c: "(\<exists>c\<in>set y. out_of_range ?k c) \<longleftrightarrow> set y \<noteq> {1..int ?k}" if pos: "\<forall>c\<in>set y. 1 \<le> c"
  proof
    assume "\<exists>c\<in>set y. out_of_range ?k c"
    then obtain c where c: "c \<in> set y" "out_of_range ?k c" by blast
    show "set y \<noteq> {1..int ?k}"
    proof
      assume "set y = {1..int ?k}"
      with c(1) have "c \<in> {1..int ?k}" by blast
      with c(2) show False by (simp add: out_of_range_def)
    qed
  next
    assume ne: "set y \<noteq> {1..int ?k}"
    show "\<exists>c\<in>set y. out_of_range ?k c"
    proof (rule ccontr)
      assume "\<not> (\<exists>c\<in>set y. out_of_range ?k c)"
      then have "\<forall>c\<in>set y. 1 \<le> c \<and> c \<le> int ?k" using pos by (auto simp: out_of_range_def)
      from contiguous_labels [OF this] ne show False by simp
    qed
  qed
  show ?thesis using a b c by auto
qed

text \<open>Labels 1 and 3 without 2: the index 2 is outside the two rows.\<close>

theorem fit_bucketing_error_witness:
  "length [1, 3 :: int] = shape_rows X_unfollowed \<and> set [1, 3 :: int] \<noteq> {1..int (card (set [1, 3 :: int]))} \<and>
   fit (fresh 3) X_unfollowed [1, 3] = Inl IndexError"
proof -
  have l: "length [1, 3 :: int] = shape_rows X_unfollowed" by (simp add: X_unfollowed_def)
  have k: "card (set [1, 3 :: int]) = 2" by simp
  have "\<exists>c\<in>set [1, 3 :: int]. out_of_range (card (set [1, 3 :: int])) c"
    unfolding k by (simp add: out_of_range_def)
  with fit_bucketing_error [OF l, of "fresh 3"] have "fit (fresh 3) X_unfollowed [1, 3] = Inl IndexError"
    by simp
  moreover have "set [1, 3 :: int] \<noteq> {1..int (card (set [1, 3 :: int]))}"
  proof
    assume "set [1, 3 :: int] = {1..int (card (set [1, 3 :: int]))}"
    moreover have "(3::int) \<in> set [1, 3]" by simp
    ultimately have "(3::int) \<in> {1..int (card (set [1, 3 :: int]))}" by blast
    then show False unfolding k by simp
  qed
  ultimately show ?thesis using l by blast
qed

text \<open>
  Claim C10 as stated fails: the labels \<open>{0, 1}\<close> are not \<open>{1, 2}\<close>, yet \<open>fit\<close>
  returns; the sums of label 0 are stored in the last row.
\<close>

theorem fit_bucketing_error_counterexample:
  "set [0, 1 :: int] \<noteq> {1..int (card (set [0, 1 :: int]))} \<and>
   length [0, 1 :: int] = shape_rows X_unfollowed \<and>
   fit (fresh 2) X_unfollowed [0, 1] =
     Inr ((fresh 2)\<lparr>model := Some \<lparr>dim0 = 2, dim1 = 2, cells = [[11 / 21, 0], [11 / 21, 0]]\<rparr>\<rparr>)"
proof -
  have "fit (fresh 2) X_unfollowed [0, 1] =
     Inr ((fresh 2)\<lparr>model := Some \<lparr>dim0 = 2, dim1 = 2, cells = [[11 / 21, 0], [11 / 21, 0]]\<rparr>\<rparr>)"
    by code_simp
  moreover have "set [0, 1 :: int] \<noteq> {1..int (card (set [0, 1 :: int]))}"
  proof
    assume "set [0, 1 :: int] = {1..int (card (set [0, 1 :: int]))}"
    moreover have "(0::int) \<in> set [0, 1]" by simp
    ultimately have "(0::int) \<in> {1..int (card (set [0, 1 :: int]))}" by blast
    then show False by simp
  qed
  moreover have "length [0, 1 :: int] = shape_rows X_unfollowed" by (simp add: X_unfollowed_def)
  ultimately show ?thesis by blast
qed

end
